theory Spec2Isabelle
  imports Main
begin

section \<open>Data model\<close>

text \<open>
  The writer of \<^verbatim>\<open>package writer\<close> turns change records into named-parameter SQL
  commands, sends them on a channel, and a batch loop executes each chunk of commands in
  one transaction, retrying until the commit succeeds.

  The record types of the SDK (\<^verbatim>\<open>Record\<close>, \<^verbatim>\<open>Field\<close>, \<^verbatim>\<open>RecordDef\<close>,
  \<^verbatim>\<open>ColumnDef\<close>) and the \<^verbatim>\<open>DBCommand\<close> struct are declared outside the files
  at hand; they are modelled with exactly the fields the writer reads and writes.
\<close>

text \<open>
  Modelled from the spec: the enum \<^verbatim>\<open>gravity_sdk_types_record.Method\<close> is declared in
  the SDK. The spec gives the methods INSERT, UPDATE and DELETE; \<open>Method_OTHER\<close> stands
  for every further value of the underlying integer type.
\<close>

datatype Method = Method_INSERT | Method_UPDATE | Method_DELETE | Method_OTHER

text \<open>
  A field carries its name and its encoded value of type \<open>'r\<close>; the SDK's
  \<^verbatim>\<open>GetValue\<close> decodes it to a Go value of type \<open>'v\<close>. The decoder is a parameter
  \<open>gv\<close> of every function that calls it.
\<close>

record 'r Field =
  Name :: string
  Value :: 'r

record 'r Record =
  Method :: Method
  Table :: string
  Fields :: "'r Field list"
  PrimaryKey :: string

text \<open>
  \<^verbatim>\<open>ColumnDef.Value\<close> is named \<open>ColumnValue\<close> here, since \<open>Value\<close> is the field
  of \<open>Field\<close>.
\<close>

record ColumnDef =
  ColumnName :: string
  ColumnValue :: string
  BindingName :: string

record 'v RecordDef =
  HasPrimary :: bool
  PrimaryColumn :: string
  Values :: "string \<rightharpoonup> 'v"
  ColumnDefs :: "ColumnDef list"

record ('ref, 'r, 'v) DBCommand =
  Reference :: 'ref
  Record :: "'r Record"
  QueryStr :: string
  Args :: "string \<rightharpoonup> 'v"

text \<open>\<^verbatim>\<open>errors.New(msg)\<close>\<close>

datatype error = Error string

definition MissingPrimaryKeyError :: error where
  "MissingPrimaryKeyError = Error ''Not found primary key''"

text \<open>
  The channel \<^verbatim>\<open>writer.commands\<close>, as the sequence of commands sent and not yet
  received; a send appends at the end. (A send on a full channel blocks until the
  consumer has received; the model is of the send that has completed.)
\<close>

type_synonym ('ref, 'r, 'v) chan = "('ref, 'r, 'v) DBCommand list"


section \<open>String helpers\<close>

text \<open>\<^verbatim>\<open>strconv.Itoa\<close> on a non-negative integer: its decimal digits.\<close>

definition digit :: "nat \<Rightarrow> char" where
  "digit d = ''0123456789'' ! d"

fun Itoa :: "nat \<Rightarrow> string" where
  "Itoa n = (if n < 10 then [digit n] else Itoa (n div 10) @ [digit (n mod 10)])"

declare Itoa.simps [simp del]

text \<open>\<^verbatim>\<open>strings.Join(elems, sep)\<close>\<close>

fun Join :: "string list \<Rightarrow> string \<Rightarrow> string" where
  "Join [] sep = []"
| "Join [x] sep = x"
| "Join (x # y # ys) sep = x @ sep @ Join (y # ys) sep"

text \<open>The three templates, with \<^verbatim>\<open>fmt.Sprintf\<close> applied to their arguments.\<close>

definition UpdateTemplate :: "string \<Rightarrow> string \<Rightarrow> string \<Rightarrow> string" where
  \<open>UpdateTemplate table updates pcol =
     ''UPDATE "'' @ table @ ''" SET '' @ updates @ '' WHERE "'' @ pcol @ ''" = :primary_val''\<close>

definition InsertTemplate :: "string \<Rightarrow> string \<Rightarrow> string \<Rightarrow> string" where
  \<open>InsertTemplate table cols vals =
     ''INSERT INTO "'' @ table @ ''" ('' @ cols @ '') VALUES ('' @ vals @ '')''\<close>

definition DeleteTemplate :: "string \<Rightarrow> string \<Rightarrow> string" where
  \<open>DeleteTemplate table pcol =
     ''DELETE FROM "'' @ table @ ''" WHERE "'' @ pcol @ ''" = :primary_val''\<close>


section \<open>Record translation\<close>

text \<open>The binding name of the field at index \<open>n\<close>: \<^verbatim>\<open>fmt.Sprintf("val_%s", strconv.Itoa(n))\<close>\<close>

definition bindingName :: "nat \<Rightarrow> string" where
  "bindingName n = ''val_'' @ Itoa n"

text \<open>
  The field scan of \<^verbatim>\<open>GetDefinition\<close>: \<open>n\<close> is the index of the \<^verbatim>\<open>range\<close> loop,
  \<open>d\<close> the definition built so far.
\<close>

fun scan_fields ::
  "('r \<Rightarrow> 'v) \<Rightarrow> string \<Rightarrow> nat \<Rightarrow> 'r Field list \<Rightarrow> 'v RecordDef \<Rightarrow> 'v RecordDef" where
  "scan_fields gv pk n [] d = d"
| "scan_fields gv pk n (field # rest) d =
     (let v = gv (Value field) in
      if pk = Name field then
        scan_fields gv pk (Suc n) rest
          (d\<lparr>Values := (Values d)(''primary_val'' \<mapsto> v),
             HasPrimary := True,
             PrimaryColumn := Name field\<rparr>)
      else
        scan_fields gv pk (Suc n) rest
          (d\<lparr>Values := (Values d)(bindingName n \<mapsto> v),
             ColumnDefs := ColumnDefs d @
               [\<lparr>ColumnName = Name field, ColumnValue = Name field,
                 BindingName = bindingName n\<rparr>]\<rparr>))"

definition init_recordDef :: "'v RecordDef" where
  "init_recordDef = \<lparr>HasPrimary = False, PrimaryColumn = [], Values = Map.empty, ColumnDefs = []\<rparr>"

definition GetDefinition :: "('r \<Rightarrow> 'v) \<Rightarrow> 'r Record \<Rightarrow> error + 'v RecordDef" where
  "GetDefinition gv record =
     (let recordDef = scan_fields gv (PrimaryKey record) 0 (Fields record) init_recordDef in
      if length (PrimaryKey record) > 0 \<and> \<not> HasPrimary recordDef
      then Inl MissingPrimaryKeyError
      else Inr recordDef)"

text \<open>\<^verbatim>\<open>insert\<close>: builds the INSERT statement and sends the command.\<close>

definition insert_cmd ::
  "'ref \<Rightarrow> 'r Record \<Rightarrow> string \<Rightarrow> 'v RecordDef \<Rightarrow> ('ref, 'r, 'v) chan
     \<Rightarrow> error option \<times> ('ref, 'r, 'v) chan" where
  \<open>insert_cmd reference record table recordDef commands =
     (let colNames = (if HasPrimary recordDef then [''"'' @ PrimaryColumn recordDef @ ''"''] else [])
                     @ map (\<lambda>def. ''"'' @ ColumnName def @ ''"'') (ColumnDefs recordDef);
          valNames = (if HasPrimary recordDef then ['':primary_val''] else [])
                     @ map (\<lambda>def. '':'' @ BindingName def) (ColumnDefs recordDef);
          colsStr = Join colNames '','';
          valsStr = Join valNames '','';
          insertStr = InsertTemplate table colsStr valsStr
      in (None, commands @
            [\<lparr>Reference = reference, Record = record, QueryStr = insertStr,
              Args = Values recordDef\<rparr>]))\<close>

text \<open>\<^verbatim>\<open>update\<close>: builds the UPDATE statement and sends the command.\<close>

definition update ::
  "'ref \<Rightarrow> 'r Record \<Rightarrow> string \<Rightarrow> 'v RecordDef \<Rightarrow> ('ref, 'r, 'v) chan
     \<Rightarrow> (bool \<times> error option) \<times> ('ref, 'r, 'v) chan" where
  \<open>update reference record table recordDef commands =
     (let updates = map (\<lambda>def. ''"'' @ ColumnName def @ ''" = :'' @ BindingName def)
                      (ColumnDefs recordDef);
          updateStr = Join updates '','';
          sqlStr = UpdateTemplate table updateStr (PrimaryColumn recordDef)
      in ((False, None), commands @
            [\<lparr>Reference = reference, Record = record, QueryStr = sqlStr,
              Args = Values recordDef\<rparr>]))\<close>

definition InsertRecord ::
  "('r \<Rightarrow> 'v) \<Rightarrow> 'ref \<Rightarrow> 'r Record \<Rightarrow> ('ref, 'r, 'v) chan
     \<Rightarrow> error option \<times> ('ref, 'r, 'v) chan" where
  "InsertRecord gv reference record commands =
     (case GetDefinition gv record of
        Inl err \<Rightarrow> (Some err, commands)
      | Inr recordDef \<Rightarrow> insert_cmd reference record (Table record) recordDef commands)"

definition UpdateRecord ::
  "('r \<Rightarrow> 'v) \<Rightarrow> 'ref \<Rightarrow> 'r Record \<Rightarrow> ('ref, 'r, 'v) chan
     \<Rightarrow> error option \<times> ('ref, 'r, 'v) chan" where
  "UpdateRecord gv reference record commands =
     (case GetDefinition gv record of
        Inl err \<Rightarrow> (Some err, commands)
      | Inr recordDef \<Rightarrow>
          if HasPrimary recordDef = False then (None, commands)
          else (case update reference record (Table record) recordDef commands of
                  ((_, Some err), commands') \<Rightarrow> (Some err, commands')
                | ((_, None), commands') \<Rightarrow> (None, commands')))"

text \<open>
  The loop of \<^verbatim>\<open>DeleteRecord\<close>: the first field named as the primary key sends the
  command and leaves the loop.
\<close>

fun delete_scan ::
  "('r \<Rightarrow> 'v) \<Rightarrow> 'ref \<Rightarrow> 'r Record \<Rightarrow> 'r Field list \<Rightarrow> ('ref, 'r, 'v) chan
     \<Rightarrow> ('ref, 'r, 'v) chan" where
  "delete_scan gv reference record [] commands = commands"
| "delete_scan gv reference record (field # rest) commands =
     (if PrimaryKey record = Name field then
        commands @
          [\<lparr>Reference = reference, Record = record,
            QueryStr = DeleteTemplate (Table record) (Name field),
            Args = [''primary_val'' \<mapsto> gv (Value field)]\<rparr>]
      else delete_scan gv reference record rest commands)"

definition DeleteRecord ::
  "('r \<Rightarrow> 'v) \<Rightarrow> 'ref \<Rightarrow> 'r Record \<Rightarrow> ('ref, 'r, 'v) chan
     \<Rightarrow> error option \<times> ('ref, 'r, 'v) chan" where
  "DeleteRecord gv reference record commands =
     (if PrimaryKey record = [] then (None, commands)
      else (None, delete_scan gv reference record (Fields record) commands))"

definition ProcessData ::
  "('r \<Rightarrow> 'v) \<Rightarrow> 'ref \<Rightarrow> 'r Record \<Rightarrow> ('ref, 'r, 'v) chan
     \<Rightarrow> error option \<times> ('ref, 'r, 'v) chan" where
  "ProcessData gv reference record commands =
     (case Method record of
        Method_DELETE \<Rightarrow> DeleteRecord gv reference record commands
      | Method_UPDATE \<Rightarrow> UpdateRecord gv reference record commands
      | Method_INSERT \<Rightarrow> InsertRecord gv reference record commands
      | Method_OTHER \<Rightarrow> (None, commands))"


section \<open>Batch writer\<close>

text \<open>
  \<^verbatim>\<open>processData\<close> talks to the database through \<^verbatim>\<open>Beginx\<close>, \<^verbatim>\<open>NamedExec\<close>,
  \<^verbatim>\<open>Commit\<close> and \<^verbatim>\<open>Rollback\<close>. The database is a parameter \<open>db\<close>: \<open>db k\<close>
  tells whether the \<open>k\<close>-th call that returns an error value (\<^verbatim>\<open>Beginx\<close>,
  \<^verbatim>\<open>NamedExec\<close>, \<^verbatim>\<open>Commit\<close>, counted in the order they are made) succeeds. The result
  of \<^verbatim>\<open>Rollback\<close> is dropped by the code, so it takes no answer from \<open>db\<close>.

  A transaction handle is \<open>Some k\<close>, the transaction opened by call \<open>k\<close>, or \<open>None\<close>,
  the nil pointer that \<^verbatim>\<open>Beginx\<close> returns with an error.
\<close>

type_synonym tx = "nat option"

text \<open>
  What the writer does, in order: the calls on the database with their outcome, the
  wait (in seconds) and the calls of the completion handler.
\<close>


datatype ('ref, 'r, 'v) event =
    EvBeginx tx
  | EvNamedExec tx "('ref, 'r, 'v) DBCommand" bool
  | EvCommit tx bool
  | EvRollback tx
  | EvWait nat
  | EvHook "('ref, 'r, 'v) DBCommand"

text \<open>
  How a run ends: the chunk is committed and the function returns after the handler
  calls, or the goroutine panics. \<^verbatim>\<open>tx.Rollback()\<close> on a nil \<^verbatim>\<open>*sqlx.Tx\<close> reads the
  embedded \<^verbatim>\<open>*sql.Tx\<close> through the nil pointer, which is a run-time panic in Go.
\<close>

datatype status = Committed | Panicked

text \<open>\<^verbatim>\<open>time.Second * 5\<close>\<close>

definition retry_delay :: nat where
  "retry_delay = 5"

text \<open>
  The inner loop over the commands of the chunk, from call number \<open>k\<close>: it returns
  whether all statements succeeded, the next call number and the events. At the first
  failing statement it rolls back and waits.
\<close>

fun exec_loop ::
  "(nat \<Rightarrow> bool) \<Rightarrow> nat \<Rightarrow> tx \<Rightarrow> ('ref, 'r, 'v) DBCommand list
     \<Rightarrow> bool \<times> nat \<times> ('ref, 'r, 'v) event list" where
  "exec_loop db k tx [] = (True, k, [])"
| "exec_loop db k tx (cmd # rest) =
     (if db k then
        (case exec_loop db (Suc k) tx rest of
           (ok, k', evs) \<Rightarrow> (ok, k', EvNamedExec tx cmd True # evs))
      else (False, Suc k, [EvNamedExec tx cmd False, EvRollback tx, EvWait retry_delay]))"

text \<open>
  The outer loop. It has no bound in the code, so the model takes \<open>fuel\<close>, the number
  of attempts it may still start; with no fuel left the status is \<open>None\<close> and the
  events are those of the attempts made so far.
\<close>

fun processData ::
  "nat \<Rightarrow> (nat \<Rightarrow> bool) \<Rightarrow> nat \<Rightarrow> ('ref, 'r, 'v) DBCommand list
     \<Rightarrow> ('ref, 'r, 'v) event list \<times> status option" where
  "processData 0 db k dbCommands = ([], None)"
| "processData (Suc fuel) db k dbCommands =
     (if \<not> db k then ([EvBeginx None, EvRollback None], Some Panicked)
      else
        let tx = Some k in
        (case exec_loop db (Suc k) tx dbCommands of
           (False, k', evs) \<Rightarrow>
             (case processData fuel db k' dbCommands of
                (later, st) \<Rightarrow> (EvBeginx tx # evs @ later, st))
         | (True, k', evs) \<Rightarrow>
             if db k' then
               (EvBeginx tx # evs @ [EvCommit tx True] @ map EvHook dbCommands, Some Committed)
             else
               (case processData fuel db (Suc k') dbCommands of
                  (later, st) \<Rightarrow>
                    (EvBeginx tx # evs @ [EvCommit tx False, EvRollback tx, EvWait retry_delay] @ later,
                     st))))"

text \<open>\<^verbatim>\<open>chunkHandler\<close> copies the chunk, in order, and runs \<^verbatim>\<open>processData\<close> on it.\<close>

definition chunkHandler ::
  "nat \<Rightarrow> (nat \<Rightarrow> bool) \<Rightarrow> nat \<Rightarrow> ('ref, 'r, 'v) DBCommand list
     \<Rightarrow> ('ref, 'r, 'v) event list \<times> status option" where
  "chunkHandler fuel db k chunk = processData fuel db k (map (\<lambda>request. request) chunk)"


section \<open>Vocabulary of the properties\<close>

text \<open>
  The three kinds of attempt on a chunk: one that stops at the failing statement \<open>j\<close>,
  one whose commit fails, and one that commits and then calls the completion handler.
\<close>

definition exec_failure ::
  "('ref, 'r, 'v) DBCommand list \<Rightarrow> tx \<Rightarrow> nat \<Rightarrow> ('ref, 'r, 'v) event list" where
  "exec_failure cmds tx j =
     EvBeginx tx # map (\<lambda>c. EvNamedExec tx c True) (take j cmds) @
       [EvNamedExec tx (cmds ! j) False, EvRollback tx, EvWait 5]"

definition commit_failure ::
  "('ref, 'r, 'v) DBCommand list \<Rightarrow> tx \<Rightarrow> ('ref, 'r, 'v) event list" where
  "commit_failure cmds tx =
     EvBeginx tx # map (\<lambda>c. EvNamedExec tx c True) cmds @
       [EvCommit tx False, EvRollback tx, EvWait 5]"

definition committed_attempt ::
  "('ref, 'r, 'v) DBCommand list \<Rightarrow> tx \<Rightarrow> ('ref, 'r, 'v) event list" where
  "committed_attempt cmds tx =
     EvBeginx tx # map (\<lambda>c. EvNamedExec tx c True) cmds @ [EvCommit tx True] @ map EvHook cmds"

definition failed_attempt ::
  "('ref, 'r, 'v) DBCommand list \<Rightarrow> ('ref, 'r, 'v) event list \<Rightarrow> bool" where
  "failed_attempt cmds a \<longleftrightarrow>
     (\<exists>t. (\<exists>j<length cmds. a = exec_failure cmds (Some t) j) \<or> a = commit_failure cmds (Some t))"

fun is_hook :: "('ref, 'r, 'v) event \<Rightarrow> bool" where
  "is_hook (EvHook c) = True"
| "is_hook _ = False"

fun is_commit :: "('ref, 'r, 'v) event \<Rightarrow> bool" where
  "is_commit (EvCommit tx ok) = ok"
| "is_commit _ = False"

text \<open>
  The shape of a run of \<open>fuel\<close> attempts at most: failed attempts, then nothing more
  (out of fuel), or the committing attempt, or the failed begin.
\<close>

definition run_shape ::
  "nat \<Rightarrow> ('ref, 'r, 'v) DBCommand list \<Rightarrow> ('ref, 'r, 'v) event list \<times> status option \<Rightarrow> bool" where
  "run_shape fuel cmds res \<longleftrightarrow>
     (\<exists>as fin. fst res = concat as @ fin \<and> list_all (failed_attempt cmds) as \<and>
        (snd res = None \<and> fin = [] \<and> length as = fuel \<or>
         snd res = Some Committed \<and> (\<exists>t. fin = committed_attempt cmds (Some t)) \<or>
         snd res = Some Panicked \<and> fin = [EvBeginx None, EvRollback None]))"


section \<open>Reference inputs\<close>

text \<open>Decoded field values of the scenarios: an integer or a string.\<close>

datatype gvalue = IntValue int | StringValue string

definition scenario_users :: "Method \<Rightarrow> gvalue Record" where
  "scenario_users m =
     \<lparr>Method = m, Table = ''users'',
      Fields = [\<lparr>Name = ''id'', Value = IntValue 7\<rparr>, \<lparr>Name = ''name'', Value = StringValue ''ann''\<rparr>],
      PrimaryKey = ''id''\<rparr>"

definition scenario_delete :: "gvalue Record" where
  "scenario_delete =
     \<lparr>Method = Method_DELETE, Table = ''users'',
      Fields = [\<lparr>Name = ''id'', Value = IntValue 7\<rparr>],
      PrimaryKey = ''id''\<rparr>"

definition unresolved_delete :: "gvalue Record" where
  "unresolved_delete =
     \<lparr>Method = Method_DELETE, Table = ''users'',
      Fields = [\<lparr>Name = ''name'', Value = StringValue ''ann''\<rparr>],
      PrimaryKey = ''id''\<rparr>"

definition empty_name_update :: "gvalue Record" where
  "empty_name_update =
     \<lparr>Method = Method_UPDATE, Table = ''users'',
      Fields = [\<lparr>Name = [], Value = IntValue 7\<rparr>],
      PrimaryKey = []\<rparr>"

definition sample_cmd :: "nat \<Rightarrow> (nat, gvalue, gvalue) DBCommand" where
  \<open>sample_cmd n =
     \<lparr>Reference = n, Record = scenario_delete,
      QueryStr = ''DELETE FROM "users" WHERE "id" = :primary_val'',
      Args = [''primary_val'' \<mapsto> IntValue 7]\<rparr>\<close>

definition second_statement_fails :: "nat \<Rightarrow> bool" where
  "second_statement_fails n = (n \<noteq> 2)"

definition begin_fails_on_retry :: "nat \<Rightarrow> bool" where
  "begin_fails_on_retry n = (n = 0)"


section \<open>Decimal digits and binding names\<close>

text \<open>
  Different indices have different decimal renderings, so different binding names, and
  no binding name of a field is the reserved name \<open>primary_val\<close>.
\<close>

lemma digit_inj: "d < 10 \<Longrightarrow> e < 10 \<Longrightarrow> digit d = digit e \<Longrightarrow> d = e"
proof -
  assume a: "d < 10" "e < 10" "digit d = digit e"
  have dist: "distinct ''0123456789''" by simp
  have len: "length ''0123456789'' = 10" by simp
  from a show ?thesis
    unfolding digit_def using dist len nth_eq_iff_index_eq by metis
qed

lemma Itoa_not_Nil: "Itoa n \<noteq> []"
  by (subst Itoa.simps) simp

lemma Itoa_inj: "Itoa m = Itoa n \<Longrightarrow> m = n"
proof (induction m arbitrary: n rule: Itoa.induct)
  case (1 m)
  show ?case
  proof (cases "m < 10")
    case True
    show ?thesis
    proof (cases "n < 10")
      case nt: True
      from "1.prems" True nt have "digit m = digit n"
        by (simp add: Itoa.simps [of m] Itoa.simps [of n])
      with True nt show ?thesis by (rule digit_inj)
    next
      case nf: False
      from "1.prems" True nf have "[digit m] = Itoa (n div 10) @ [digit (n mod 10)]"
        by (simp add: Itoa.simps [of m] Itoa.simps [of n])
      then have "Itoa (n div 10) = []" by simp
      then show ?thesis by (simp add: Itoa_not_Nil)
    qed
  next
    case False
    show ?thesis
    proof (cases "n < 10")
      case nt: True
      from "1.prems" False nt have "Itoa (m div 10) @ [digit (m mod 10)] = [digit n]"
        by (simp add: Itoa.simps [of m] Itoa.simps [of n])
      then have "Itoa (m div 10) = []" by simp
      then show ?thesis by (simp add: Itoa_not_Nil)
    next
      case nf: False
      from "1.prems" False nf
      have eq: "Itoa (m div 10) @ [digit (m mod 10)] = Itoa (n div 10) @ [digit (n mod 10)]"
        by (simp add: Itoa.simps [of m] Itoa.simps [of n])
      then have a: "Itoa (m div 10) = Itoa (n div 10)" and b: "digit (m mod 10) = digit (n mod 10)"
        by simp_all
      from "1.IH" [OF False a] have q: "m div 10 = n div 10" .
      have "m mod 10 < 10" "n mod 10 < 10" by simp_all
      then have r: "m mod 10 = n mod 10" using b by (rule digit_inj)
      from q r show ?thesis by (metis div_mult_mod_eq)
    qed
  qed
qed

lemma bindingName_inj: "bindingName m = bindingName n \<Longrightarrow> m = n"
  unfolding bindingName_def using Itoa_inj by simp

lemma bindingName_not_primary: "bindingName n \<noteq> ''primary_val''"
  unfolding bindingName_def by simp


section \<open>The field scan\<close>

text \<open>
  What the scan of \<open>fs\<close> from index \<open>n\<close> adds to a definition \<open>d\<close>, field by
  field of the definition.
\<close>

lemma scan_fields_HasPrimary:
  "HasPrimary (scan_fields gv pk n fs d) = (HasPrimary d \<or> pk \<in> Name ` set fs)"
  by (induction fs arbitrary: n d pk) (auto simp: Let_def)

lemma scan_fields_PrimaryColumn:
  "PrimaryColumn (scan_fields gv pk n fs d) = (if pk \<in> Name ` set fs then pk else PrimaryColumn d)"
  by (induction fs arbitrary: n d pk) (auto simp: Let_def)

lemma scan_fields_ColumnDefs:
  "ColumnDefs (scan_fields gv pk n fs d) =
     ColumnDefs d @
     map (\<lambda>i. \<lparr>ColumnName = Name (fs ! i), ColumnValue = Name (fs ! i), BindingName = bindingName (n + i)\<rparr>)
       (filter (\<lambda>i. Name (fs ! i) \<noteq> pk) [0..<length fs])"
proof (induction fs arbitrary: n d pk)
  case Nil
  then show ?case by simp
next
  case (Cons f fs)
  have up: "[0..<length (f # fs)] = 0 # map Suc [0..<length fs]"
    by (simp add: upt_conv_Cons map_Suc_upt del: upt_Suc)
  show ?case
    unfolding up by (simp add: Cons.IH Let_def filter_map comp_def del: upt_Suc) 
qed

lemma scan_fields_Values_earlier:
  "m < n \<Longrightarrow> Values (scan_fields gv pk n fs d) (bindingName m) = Values d (bindingName m)"
proof (induction fs arbitrary: n d pk)
  case Nil
  then show ?case by simp
next
  case (Cons f fs)
  from Cons.prems have ne: "bindingName n \<noteq> bindingName m" using bindingName_inj by fastforce
  from Cons.prems have lt: "m < Suc n" by simp
  show ?case
    using ne by (simp add: Let_def Cons.IH [OF lt] bindingName_not_primary)
qed

lemma scan_fields_step:
  "\<exists>d'. scan_fields gv pk n (f # fs) d = scan_fields gv pk (Suc n) fs d'"
  by (cases "pk = Name f") (simp_all add: Let_def, blast+)

lemma scan_fields_Values_val:
  "i < length fs \<Longrightarrow> Name (fs ! i) \<noteq> pk \<Longrightarrow>
   Values (scan_fields gv pk n fs d) (bindingName (n + i)) = Some (gv (Value (fs ! i)))"
proof (induction fs arbitrary: n d i pk)
  case Nil
  then show ?case by simp
next
  case (Cons f fs)
  show ?case
  proof (cases i)
    case 0
    with Cons.prems show ?thesis
      by (simp add: Let_def scan_fields_Values_earlier)
  next
    case (Suc j)
    with Cons.prems have "j < length fs" "Name (fs ! j) \<noteq> pk" by simp_all
    from Cons.IH [OF this, where n = "Suc n"]
    have ih: "Values (scan_fields gv pk (Suc n) fs d') (bindingName (Suc n + j)) =
                Some (gv (Value (fs ! j)))" for d' .
    obtain d' where "scan_fields gv pk n (f # fs) d = scan_fields gv pk (Suc n) fs d'"
      using scan_fields_step by blast
    with ih [of d'] Suc show ?thesis
      by simp
  qed
qed

lemma scan_fields_Values_primary:
  "Values (scan_fields gv pk n fs d) ''primary_val'' =
     (case filter (\<lambda>f. Name f = pk) fs of
        [] \<Rightarrow> Values d ''primary_val''
      | x # xs \<Rightarrow> Some (gv (Value (last (x # xs)))))"
proof (induction fs arbitrary: n d pk)
  case Nil
  then show ?case by simp
next
  case (Cons f fs)
  show ?case
    using bindingName_not_primary [of n] by (simp add: Let_def Cons.IH split: list.splits)
qed


section \<open>Translation of a record\<close>

lemmas translate_defs =
  ProcessData_def InsertRecord_def UpdateRecord_def DeleteRecord_def GetDefinition_def
  insert_cmd_def update_def init_recordDef_def InsertTemplate_def UpdateTemplate_def DeleteTemplate_def
  bindingName_def digit_def Let_def

lemma scenario_insert_command:
  \<open>ProcessData gv ref (scenario_users Method_INSERT) q =
     (None, q @ [\<lparr>Reference = ref, Record = scenario_users Method_INSERT,
        QueryStr = ''INSERT INTO "users" ("id","name") VALUES (:primary_val,:val_1)'',
        Args = [''primary_val'' \<mapsto> gv (IntValue 7), ''val_1'' \<mapsto> gv (StringValue ''ann'')]\<rparr>])\<close>
  by (simp add: translate_defs scenario_users_def Itoa.simps)

lemma GetDefinition_Inr:
  "GetDefinition gv r = Inr d \<Longrightarrow>
     d = scan_fields gv (PrimaryKey r) 0 (Fields r) init_recordDef \<and>
     (PrimaryKey r = [] \<or> PrimaryKey r \<in> Name ` set (Fields r))"
  by (auto simp: GetDefinition_def Let_def scan_fields_HasPrimary init_recordDef_def split: if_splits)

text \<open>
  Claim GetDefinition_binding_by_field_index, as the code has it. The binding name of a field that is not the primary key
  is \<open>val_\<close> followed by the index of the field in \<open>Fields\<close>, counted over all
  fields from 0 (the index of the \<^verbatim>\<open>range\<close> loop), not over the non-primary fields
  only. For every record that translates: the column definitions are those of the
  non-primary fields, in field order, each with its name and the binding name of its
  index; the value of each of them is stored under that binding name; the value stored
  under \<open>primary_val\<close> is that of the last field named as the primary key; and
  \<open>HasPrimary\<close> tells whether there is one. For the record INSERT into \<open>users\<close> with
  primary key \<open>id\<close> and fields \<open>id = 7\<close>, \<open>name = ann\<close>, the command is
  \<^verbatim>\<open>INSERT INTO "users" ("id","name") VALUES (:primary_val,:val_1)\<close> with arguments
  \<open>primary_val = 7\<close> and \<open>val_1 = ann\<close>.
\<close>

theorem GetDefinition_binding_by_field_index:
  \<open>GetDefinition gv r = Inr d \<Longrightarrow>
     ColumnDefs d =
       map (\<lambda>i. \<lparr>ColumnName = Name (Fields r ! i), ColumnValue = Name (Fields r ! i),
                  BindingName = ''val_'' @ Itoa i\<rparr>)
         (filter (\<lambda>i. Name (Fields r ! i) \<noteq> PrimaryKey r) [0..<length (Fields r)]) \<and>
     (\<forall>i < length (Fields r). Name (Fields r ! i) \<noteq> PrimaryKey r \<longrightarrow>
        Values d (''val_'' @ Itoa i) = Some (gv (Value (Fields r ! i)))) \<and>
     Values d ''primary_val'' =
       (case filter (\<lambda>f. Name f = PrimaryKey r) (Fields r) of
          [] \<Rightarrow> None
        | x # xs \<Rightarrow> Some (gv (Value (last (x # xs))))) \<and>
     HasPrimary d = (PrimaryKey r \<in> Name ` set (Fields r)) \<and>
     ProcessData gv ref (scenario_users Method_INSERT) q =
       (None, q @ [\<lparr>Reference = ref, Record = scenario_users Method_INSERT,
          QueryStr = ''INSERT INTO "users" ("id","name") VALUES (:primary_val,:val_1)'',
          Args = [''primary_val'' \<mapsto> gv (IntValue 7), ''val_1'' \<mapsto> gv (StringValue ''ann'')]\<rparr>])\<close>
proof -
  assume a: "GetDefinition gv r = Inr d"
  then have d: "d = scan_fields gv (PrimaryKey r) 0 (Fields r) init_recordDef"
    by (simp add: GetDefinition_Inr)
  have c1: "ColumnDefs d =
       map (\<lambda>i. \<lparr>ColumnName = Name (Fields r ! i), ColumnValue = Name (Fields r ! i),
                  BindingName = ''val_'' @ Itoa i\<rparr>)
         (filter (\<lambda>i. Name (Fields r ! i) \<noteq> PrimaryKey r) [0..<length (Fields r)])"
    unfolding d scan_fields_ColumnDefs by (simp add: init_recordDef_def bindingName_def)
  have c2: "Values d (''val_'' @ Itoa i) = Some (gv (Value (Fields r ! i)))"
    if "i < length (Fields r)" "Name (Fields r ! i) \<noteq> PrimaryKey r" for i
    using scan_fields_Values_val [OF that, of gv 0 init_recordDef]
    unfolding d by (simp add: bindingName_def)
  have c3: "Values d ''primary_val'' =
       (case filter (\<lambda>f. Name f = PrimaryKey r) (Fields r) of
          [] \<Rightarrow> None
        | x # xs \<Rightarrow> Some (gv (Value (last (x # xs)))))"
    unfolding d scan_fields_Values_primary by (simp add: init_recordDef_def split: list.splits)
  have c4: "HasPrimary d = (PrimaryKey r \<in> Name ` set (Fields r))"
    unfolding d scan_fields_HasPrimary by (simp add: init_recordDef_def)
  from c1 c2 c3 c4 scenario_insert_command [of gv ref q] show ?thesis
    by blast
qed

text \<open>
  The theorem at the scenario record.
\<close>

theorem GetDefinition_binding_by_field_index_witness:
  \<open>GetDefinition id (scenario_users Method_INSERT) =
     Inr \<lparr>HasPrimary = True, PrimaryColumn = ''id'',
          Values = [''primary_val'' \<mapsto> IntValue 7, ''val_1'' \<mapsto> StringValue ''ann''],
          ColumnDefs = [\<lparr>ColumnName = ''name'', ColumnValue = ''name'', BindingName = ''val_1''\<rparr>]\<rparr> \<and>
   ProcessData id () (scenario_users Method_INSERT) [] =
       (None, [\<lparr>Reference = (), Record = scenario_users Method_INSERT,
          QueryStr = ''INSERT INTO "users" ("id","name") VALUES (:primary_val,:val_1)'',
          Args = [''primary_val'' \<mapsto> IntValue 7, ''val_1'' \<mapsto> StringValue ''ann'']\<rparr>])\<close>
proof -
  have h: \<open>GetDefinition id (scenario_users Method_INSERT) =
     Inr \<lparr>HasPrimary = True, PrimaryColumn = ''id'',
          Values = [''primary_val'' \<mapsto> IntValue 7, ''val_1'' \<mapsto> StringValue ''ann''],
          ColumnDefs = [\<lparr>ColumnName = ''name'', ColumnValue = ''name'', BindingName = ''val_1''\<rparr>]\<rparr>\<close>
    by (simp add: translate_defs scenario_users_def Itoa.simps)
  from GetDefinition_binding_by_field_index [OF h, of "()" "[]"] h show ?thesis by simp
qed

text \<open>
  Claim GetDefinition_binding_by_field_index as stated fails on the scenario record: the statement produced is not the one
  with \<open>:val_0\<close>, and no argument is bound under \<open>val_0\<close>.
\<close>

theorem scenario_insert_binding_not_val_0:
  \<open>map QueryStr (snd (ProcessData id () (scenario_users Method_INSERT) [])) \<noteq>
     [''INSERT INTO "users" ("id","name") VALUES (:primary_val,:val_0)''] \<and>
   map (\<lambda>c. Args c ''val_0'') (snd (ProcessData id () (scenario_users Method_INSERT) [])) = [None]\<close>
  by (simp add: translate_defs scenario_users_def Itoa.simps)

lemma GetDefinition_unresolved:
  "PrimaryKey r \<noteq> [] \<Longrightarrow> PrimaryKey r \<notin> Name ` set (Fields r) \<Longrightarrow>
     GetDefinition gv r = Inl MissingPrimaryKeyError"
  by (simp add: GetDefinition_def Let_def scan_fields_HasPrimary init_recordDef_def)

lemma delete_scan_unresolved:
  "PrimaryKey r \<notin> Name ` set fs \<Longrightarrow> delete_scan gv ref r fs q = q"
  by (induction fs) auto

lemma delete_scan_find:
  \<open>find (\<lambda>f. Name f = PrimaryKey r) fs = Some f \<Longrightarrow>
     delete_scan gv ref r fs q =
       q @ [\<lparr>Reference = ref, Record = r,
              QueryStr = ''DELETE FROM "'' @ Table r @ ''" WHERE "'' @ PrimaryKey r @ ''" = :primary_val'',
              Args = [''primary_val'' \<mapsto> gv (Value f)]\<rparr>]\<close>
  by (induction fs) (auto simp: DeleteTemplate_def)

text \<open>
  Claim ProcessData_unresolved_primary_key, as the code has it. For every record whose primary key is non-empty and is
  the name of no field, no command is sent, whatever the method; INSERT and UPDATE return
  the error "Not found primary key" to the caller, while DELETE and every other method
  return no error.
\<close>

theorem ProcessData_unresolved_primary_key:
  "PrimaryKey r \<noteq> [] \<Longrightarrow> PrimaryKey r \<notin> Name ` set (Fields r) \<Longrightarrow>
     ProcessData gv ref r q =
       (if Method r = Method_INSERT \<or> Method r = Method_UPDATE
        then Some MissingPrimaryKeyError else None, q)"
  by (cases "Method r")
     (simp_all add: ProcessData_def InsertRecord_def UpdateRecord_def DeleteRecord_def
        GetDefinition_unresolved delete_scan_unresolved)

text \<open>
  The theorem at an UPDATE record whose primary key \<open>uid\<close> names no field.
\<close>

theorem ProcessData_unresolved_primary_key_witness:
  "PrimaryKey (scenario_users Method_UPDATE\<lparr>PrimaryKey := ''uid''\<rparr>) \<noteq> [] \<and>
   PrimaryKey (scenario_users Method_UPDATE\<lparr>PrimaryKey := ''uid''\<rparr>)
     \<notin> Name ` set (Fields (scenario_users Method_UPDATE\<lparr>PrimaryKey := ''uid''\<rparr>)) \<and>
   ProcessData id () (scenario_users Method_UPDATE\<lparr>PrimaryKey := ''uid''\<rparr>) [] =
     (Some MissingPrimaryKeyError, [])"
proof -
  have h1: "PrimaryKey (scenario_users Method_UPDATE\<lparr>PrimaryKey := ''uid''\<rparr>) \<noteq> []"
    by (simp add: scenario_users_def)
  have h2: "PrimaryKey (scenario_users Method_UPDATE\<lparr>PrimaryKey := ''uid''\<rparr>)
     \<notin> Name ` set (Fields (scenario_users Method_UPDATE\<lparr>PrimaryKey := ''uid''\<rparr>))"
    by (simp add: scenario_users_def)
  from ProcessData_unresolved_primary_key [OF h1 h2, of id "()" "[]"] h1 h2 show ?thesis
    by (simp add: scenario_users_def)
qed

text \<open>
  Claim ProcessData_unresolved_primary_key as stated fails for DELETE: the primary key \<open>id\<close> names no field of the
  record, and processing returns no error.
\<close>

theorem DeleteRecord_unresolved_no_error:
  "PrimaryKey unresolved_delete \<noteq> [] \<and>
   PrimaryKey unresolved_delete \<notin> Name ` set (Fields unresolved_delete) \<and>
   ProcessData id () unresolved_delete [] = (None, [])"
  by (simp add: translate_defs unresolved_delete_def)

text \<open>
  Claim C5 at a record the code mishandles. An UPDATE record with an empty primary key
  and a field whose name is empty: the empty field name equals the empty primary key, so
  \<open>HasPrimary\<close> is set and a command is sent, where the claim (and the comment
  "Ignore if no primary key" in the code) asks for none.
\<close>

theorem UpdateRecord_empty_key_empty_field_name:
  \<open>PrimaryKey empty_name_update = [] \<and>
   ProcessData id () empty_name_update [] =
     (None, [\<lparr>Reference = (), Record = empty_name_update,
               QueryStr = ''UPDATE "users" SET  WHERE "" = :primary_val'',
               Args = [''primary_val'' \<mapsto> IntValue 7]\<rparr>])\<close>
  by (simp add: translate_defs empty_name_update_def)

text \<open>
  The empty primary key where it is ignored: DELETE always, and UPDATE when no field has
  an empty name.
\<close>

lemma DeleteRecord_empty_key:
  "PrimaryKey r = [] \<Longrightarrow> DeleteRecord gv ref r q = (None, q)"
  by (simp add: DeleteRecord_def)

lemma UpdateRecord_empty_key:
  "PrimaryKey r = [] \<Longrightarrow> [] \<notin> Name ` set (Fields r) \<Longrightarrow> UpdateRecord gv ref r q = (None, q)"
  by (simp add: UpdateRecord_def GetDefinition_def Let_def scan_fields_HasPrimary init_recordDef_def)

text \<open>
  Claim InsertRecord_query_string. For every INSERT record that translates, exactly one command is sent, and its
  statement is \<^verbatim>\<open>INSERT INTO "<table>" (<columns>) VALUES (<bindings>)\<close>: the columns
  are double-quoted and joined by commas, the primary column comes first when a field is
  named as the primary key and is bound as \<open>:primary_val\<close>, and the non-primary fields
  follow in field order, each bound as \<open>:val_\<close> and its index.
\<close>

theorem InsertRecord_query_string:
  \<open>Method r = Method_INSERT \<Longrightarrow> GetDefinition gv r = Inr d \<Longrightarrow>
     ProcessData gv ref r q =
       (None, q @
         [\<lparr>Reference = ref, Record = r,
           QueryStr =
             ''INSERT INTO "'' @ Table r @ ''" ('' @
               Join ((if PrimaryKey r \<in> Name ` set (Fields r)
                      then [''"'' @ PrimaryKey r @ ''"''] else []) @
                     map (\<lambda>i. ''"'' @ Name (Fields r ! i) @ ''"'')
                       (filter (\<lambda>i. Name (Fields r ! i) \<noteq> PrimaryKey r) [0..<length (Fields r)]))
                 '','' @
               '') VALUES ('' @
               Join ((if PrimaryKey r \<in> Name ` set (Fields r)
                      then ['':primary_val''] else []) @
                     map (\<lambda>i. '':val_'' @ Itoa i)
                       (filter (\<lambda>i. Name (Fields r ! i) \<noteq> PrimaryKey r) [0..<length (Fields r)]))
                 '','' @
               '')'',
           Args = Values d\<rparr>])\<close>
proof -
  assume m: "Method r = Method_INSERT" and g: "GetDefinition gv r = Inr d"
  from g have d: "d = scan_fields gv (PrimaryKey r) 0 (Fields r) init_recordDef"
    by (simp add: GetDefinition_Inr)
  have hp: "HasPrimary d = (PrimaryKey r \<in> Name ` set (Fields r))"
    unfolding d scan_fields_HasPrimary by (simp add: init_recordDef_def)
  have pc: "PrimaryKey r \<in> Name ` set (Fields r) \<Longrightarrow> PrimaryColumn d = PrimaryKey r"
    unfolding d scan_fields_PrimaryColumn by simp
  have cd: "ColumnDefs d =
       map (\<lambda>i. \<lparr>ColumnName = Name (Fields r ! i), ColumnValue = Name (Fields r ! i),
                  BindingName = bindingName i\<rparr>)
         (filter (\<lambda>i. Name (Fields r ! i) \<noteq> PrimaryKey r) [0..<length (Fields r)])"
    unfolding d scan_fields_ColumnDefs by (simp add: init_recordDef_def)
  show ?thesis
    by (simp add: ProcessData_def m InsertRecord_def g insert_cmd_def Let_def hp pc cd comp_def
        InsertTemplate_def bindingName_def)
qed

text \<open>
  The theorem at the scenario record.
\<close>

theorem InsertRecord_query_string_witness:
  \<open>Method (scenario_users Method_INSERT) = Method_INSERT \<and>
   GetDefinition id (scenario_users Method_INSERT) =
     Inr \<lparr>HasPrimary = True, PrimaryColumn = ''id'',
          Values = [''primary_val'' \<mapsto> IntValue 7, ''val_1'' \<mapsto> StringValue ''ann''],
          ColumnDefs = [\<lparr>ColumnName = ''name'', ColumnValue = ''name'', BindingName = ''val_1''\<rparr>]\<rparr> \<and>
   map QueryStr (snd (ProcessData id () (scenario_users Method_INSERT) [])) =
     [''INSERT INTO "users" ("id","name") VALUES (:primary_val,:val_1)'']\<close>
proof -
  have m: "Method (scenario_users Method_INSERT) = Method_INSERT"
    by (simp add: scenario_users_def)
  have h: \<open>GetDefinition id (scenario_users Method_INSERT) =
     Inr \<lparr>HasPrimary = True, PrimaryColumn = ''id'',
          Values = [''primary_val'' \<mapsto> IntValue 7, ''val_1'' \<mapsto> StringValue ''ann''],
          ColumnDefs = [\<lparr>ColumnName = ''name'', ColumnValue = ''name'', BindingName = ''val_1''\<rparr>]\<rparr>\<close>
    by (simp add: translate_defs scenario_users_def Itoa.simps)
  have q: \<open>map QueryStr (snd (ProcessData id () (scenario_users Method_INSERT) [])) =
     [''INSERT INTO "users" ("id","name") VALUES (:primary_val,:val_1)'']\<close>
    unfolding InsertRecord_query_string [OF m h, of "()" "[]"]
    by (simp add: scenario_users_def Itoa.simps digit_def)
  from m h q show ?thesis by blast
qed

text \<open>
  Claim DeleteRecord_command. For every DELETE record with a non-empty primary key that names a field,
  exactly one command is sent: its statement is
  \<^verbatim>\<open>DELETE FROM "<table>" WHERE "<primaryCol>" = :primary_val\<close> and its arguments bind
  \<open>primary_val\<close> only, to the value of the first field with that name. For the record
  DELETE from \<open>users\<close> with primary key \<open>id\<close> and field \<open>id = 7\<close> the statement is
  \<^verbatim>\<open>DELETE FROM "users" WHERE "id" = :primary_val\<close> with argument \<open>primary_val = 7\<close>.
\<close>

theorem DeleteRecord_command:
  \<open>(Method r = Method_DELETE \<longrightarrow> PrimaryKey r \<noteq> [] \<longrightarrow>
      find (\<lambda>f. Name f = PrimaryKey r) (Fields r) = Some f \<longrightarrow>
      ProcessData gv ref r q =
        (None, q @
          [\<lparr>Reference = ref, Record = r,
            QueryStr = ''DELETE FROM "'' @ Table r @ ''" WHERE "'' @ PrimaryKey r @ ''" = :primary_val'',
            Args = [''primary_val'' \<mapsto> gv (Value f)]\<rparr>])) \<and>
   ProcessData gv ref scenario_delete q =
     (None, q @
       [\<lparr>Reference = ref, Record = scenario_delete,
         QueryStr = ''DELETE FROM "users" WHERE "id" = :primary_val'',
         Args = [''primary_val'' \<mapsto> gv (IntValue 7)]\<rparr>])\<close>
  by (simp add: ProcessData_def DeleteRecord_def delete_scan_find scenario_delete_def DeleteTemplate_def)

text \<open>
  The theorem at the scenario record.
\<close>

theorem DeleteRecord_command_witness:
  \<open>Method scenario_delete = Method_DELETE \<and> PrimaryKey scenario_delete \<noteq> [] \<and>
   find (\<lambda>f. Name f = PrimaryKey scenario_delete) (Fields scenario_delete)
     = Some \<lparr>Name = ''id'', Value = IntValue 7\<rparr> \<and>
   ProcessData id (3::nat) scenario_delete [] =
     (None, [\<lparr>Reference = 3, Record = scenario_delete,
         QueryStr = ''DELETE FROM "users" WHERE "id" = :primary_val'',
         Args = [''primary_val'' \<mapsto> IntValue 7]\<rparr>])\<close>
proof -
  have h: "Method scenario_delete = Method_DELETE" "PrimaryKey scenario_delete \<noteq> []"
    "find (\<lambda>f. Name f = PrimaryKey scenario_delete) (Fields scenario_delete)
     = Some \<lparr>Name = ''id'', Value = IntValue 7\<rparr>"
    by (simp_all add: scenario_delete_def)
  from DeleteRecord_command [of scenario_delete "\<lparr>Name = ''id'', Value = IntValue 7\<rparr>" id 3 "[]"] h
  show ?thesis by (simp add: scenario_delete_def)
qed

text \<open>
  Claim ProcessData_other_method. A record whose method is none of INSERT, UPDATE and DELETE is processed
  with no error and no command sent.
\<close>

theorem ProcessData_other_method:
  "Method r \<noteq> Method_INSERT \<Longrightarrow> Method r \<noteq> Method_UPDATE \<Longrightarrow> Method r \<noteq> Method_DELETE \<Longrightarrow>
     ProcessData gv ref r q = (None, q)"
  by (cases "Method r") (simp_all add: ProcessData_def)

text \<open>
  The theorem at a record of another method.
\<close>

theorem ProcessData_other_method_witness:
  "Method (scenario_users Method_OTHER) \<noteq> Method_INSERT \<and>
   Method (scenario_users Method_OTHER) \<noteq> Method_UPDATE \<and>
   Method (scenario_users Method_OTHER) \<noteq> Method_DELETE \<and>
   ProcessData id () (scenario_users Method_OTHER) [] = (None, [])"
proof -
  have h: "Method (scenario_users Method_OTHER) \<noteq> Method_INSERT"
    "Method (scenario_users Method_OTHER) \<noteq> Method_UPDATE"
    "Method (scenario_users Method_OTHER) \<noteq> Method_DELETE"
    by (simp_all add: scenario_users_def)
  from ProcessData_other_method [OF h, of id "()" "[]"] h show ?thesis by simp
qed

text \<open>
  Claim UpdateRecord_only_primary_field. For every UPDATE record whose only field is the one named as the primary
  key, a command is still sent; its SET list is empty, so the statement is
  \<^verbatim>\<open>UPDATE "<table>" SET  WHERE "<primaryCol>" = :primary_val\<close>, and its arguments bind
  \<open>primary_val\<close> only.
\<close>

theorem UpdateRecord_only_primary_field:
  \<open>Method r = Method_UPDATE \<Longrightarrow> Fields r = [f] \<Longrightarrow> Name f = PrimaryKey r \<Longrightarrow>
     ProcessData gv ref r q =
       (None, q @
         [\<lparr>Reference = ref, Record = r,
           QueryStr = ''UPDATE "'' @ Table r @ ''" SET  WHERE "'' @ PrimaryKey r @ ''" = :primary_val'',
           Args = [''primary_val'' \<mapsto> gv (Value f)]\<rparr>])\<close>
  by (simp add: ProcessData_def UpdateRecord_def GetDefinition_def update_def init_recordDef_def
      UpdateTemplate_def Let_def)

text \<open>
  The theorem at the UPDATE record of table \<open>users\<close> with the single field \<open>id = 7\<close>.
\<close>

theorem UpdateRecord_only_primary_field_witness:
  \<open>Method (scenario_delete\<lparr>Method := Method_UPDATE\<rparr>) = Method_UPDATE \<and>
   Fields (scenario_delete\<lparr>Method := Method_UPDATE\<rparr>) = [\<lparr>Name = ''id'', Value = IntValue 7\<rparr>] \<and>
   Name \<lparr>Name = ''id'', Value = IntValue 7\<rparr> = PrimaryKey (scenario_delete\<lparr>Method := Method_UPDATE\<rparr>) \<and>
   map QueryStr (snd (ProcessData id () (scenario_delete\<lparr>Method := Method_UPDATE\<rparr>) [])) =
     [''UPDATE "users" SET  WHERE "id" = :primary_val''] \<and>
   map Args (snd (ProcessData id () (scenario_delete\<lparr>Method := Method_UPDATE\<rparr>) [])) =
     [[''primary_val'' \<mapsto> IntValue 7]]\<close>
proof -
  have h: "Method (scenario_delete\<lparr>Method := Method_UPDATE\<rparr>) = Method_UPDATE"
    "Fields (scenario_delete\<lparr>Method := Method_UPDATE\<rparr>) = [\<lparr>Name = ''id'', Value = IntValue 7\<rparr>]"
    "Name \<lparr>Name = ''id'', Value = IntValue 7\<rparr> = PrimaryKey (scenario_delete\<lparr>Method := Method_UPDATE\<rparr>)"
    by (simp_all add: scenario_delete_def)
  from UpdateRecord_only_primary_field [OF h, of id "()" "[]"] h show ?thesis
    by (simp add: scenario_delete_def)
qed


section \<open>Runs of the batch writer\<close>

text \<open>
  The inner loop either executes every statement of the chunk, or stops at the first
  failing one, after the statements before it.
\<close>

lemma exec_loop_cases:
  "exec_loop db k tx cmds = (True, k + length cmds, map (\<lambda>c. EvNamedExec tx c True) cmds) \<or>
   (\<exists>j<length cmds. exec_loop db k tx cmds =
      (False, Suc (k + j),
       map (\<lambda>c. EvNamedExec tx c True) (take j cmds) @
         [EvNamedExec tx (cmds ! j) False, EvRollback tx, EvWait 5]))"
proof (induction cmds arbitrary: k)
  case Nil
  then show ?case by simp
next
  case (Cons c cs)
  show ?case
  proof (cases "db k")
    case False
    then have "exec_loop db k tx (c # cs) =
      (False, Suc (k + 0),
       map (\<lambda>c. EvNamedExec tx c True) (take 0 (c # cs)) @
         [EvNamedExec tx ((c # cs) ! 0) False, EvRollback tx, EvWait 5])"
      by (simp add: retry_delay_def)
    then show ?thesis by blast
  next
    case True
    from Cons.IH [of "Suc k"] show ?thesis
    proof
      assume "exec_loop db (Suc k) tx cs =
        (True, Suc k + length cs, map (\<lambda>c. EvNamedExec tx c True) cs)"
      with True show ?thesis by simp
    next
      assume "\<exists>j<length cs. exec_loop db (Suc k) tx cs =
        (False, Suc (Suc k + j),
         map (\<lambda>c. EvNamedExec tx c True) (take j cs) @
           [EvNamedExec tx (cs ! j) False, EvRollback tx, EvWait 5])"
      then obtain j where j: "j < length cs" and e: "exec_loop db (Suc k) tx cs =
        (False, Suc (Suc k + j),
         map (\<lambda>c. EvNamedExec tx c True) (take j cs) @
           [EvNamedExec tx (cs ! j) False, EvRollback tx, EvWait 5])" by blast
      from True e have "exec_loop db k tx (c # cs) =
        (False, Suc (k + Suc j),
         map (\<lambda>c. EvNamedExec tx c True) (take (Suc j) (c # cs)) @
           [EvNamedExec tx ((c # cs) ! Suc j) False, EvRollback tx, EvWait 5])"
        by simp
      moreover from j have "Suc j < length (c # cs)" by simp
      ultimately show ?thesis by blast
    qed
  qed
qed

text \<open>
  With a database that answers every call of an attempt positively, the first attempt
  commits: the run needs fuel for one attempt only, and returns.
\<close>

lemma exec_loop_all_ok:
  "(\<forall>i<length cmds. db (k + i)) \<Longrightarrow>
     exec_loop db k tx cmds = (True, k + length cmds, map (\<lambda>c. EvNamedExec tx c True) cmds)"
proof (induction cmds arbitrary: k)
  case Nil
  then show ?case by simp
next
  case (Cons c cs)
  from Cons.prems have "db (k + 0)" by blast
  then have k: "db k" by simp
  have "\<forall>i<length cs. db (Suc k + i)"
  proof (intro allI impI)
    fix i assume "i < length cs"
    then have "Suc i < length (c # cs)" by simp
    with Cons.prems have "db (k + Suc i)" by blast
    then show "db (Suc k + i)" by simp
  qed
  from Cons.IH [OF this] k show ?case by simp
qed

lemma processData_commits_first_attempt:
  "(\<forall>i \<le> Suc (length cmds). db (k + i)) \<Longrightarrow>
     processData (Suc fuel) db k cmds = (committed_attempt cmds (Some k), Some Committed)"
proof -
  assume a: "\<forall>i \<le> Suc (length cmds). db (k + i)"
  then have "db (k + 0)" by blast
  then have b: "db k" by simp
  have "\<forall>i<length cmds. db (Suc k + i)"
  proof (intro allI impI)
    fix i assume "i < length cmds"
    then have "Suc i \<le> Suc (length cmds)" by simp
    with a have "db (k + Suc i)" by blast
    then show "db (Suc k + i)" by simp
  qed
  then have e: "exec_loop db (Suc k) (Some k) cmds =
      (True, Suc k + length cmds, map (\<lambda>c. EvNamedExec (Some k) c True) cmds)"
    by (rule exec_loop_all_ok)
  from a have "db (k + Suc (length cmds))" by blast
  then have c: "db (Suc k + length cmds)" by simp
  from b e c show ?thesis
    by (simp add: committed_attempt_def Let_def)
qed

text \<open>
  Every run has the shape \<open>run_shape\<close>: by induction on the number of attempts, each
  failed attempt being put in front of the run that follows it.
\<close>

lemma run_shape_retry:
  assumes a: "failed_attempt cmds a" and r: "run_shape fuel cmds (t, st)"
  shows "run_shape (Suc fuel) cmds (a @ t, st)"
proof -
  from r obtain as fin where s: "t = concat as @ fin" "list_all (failed_attempt cmds) as"
    "st = None \<and> fin = [] \<and> length as = fuel \<or>
     st = Some Committed \<and> (\<exists>t. fin = committed_attempt cmds (Some t)) \<or>
     st = Some Panicked \<and> fin = [EvBeginx None, EvRollback None]"
    unfolding run_shape_def by auto
  have 1: "fst (a @ t, st) = concat (a # as) @ fin" using s(1) by simp
  have 2: "list_all (failed_attempt cmds) (a # as)" using a s(2) by simp
  have 3: "snd (a @ t, st) = None \<and> fin = [] \<and> length (a # as) = Suc fuel \<or>
     snd (a @ t, st) = Some Committed \<and> (\<exists>t. fin = committed_attempt cmds (Some t)) \<or>
     snd (a @ t, st) = Some Panicked \<and> fin = [EvBeginx None, EvRollback None]"
    using s(3) by auto
  from 1 2 3 show ?thesis unfolding run_shape_def by blast
qed

lemma run_shape_final:
  assumes "st = Some Committed \<and> (\<exists>t. fin = committed_attempt cmds (Some t)) \<or>
           st = Some Panicked \<and> fin = [EvBeginx None, EvRollback None]"
  shows "run_shape fuel cmds (fin, st)"
proof -
  have 1: "fst (fin, st) = concat [] @ fin" by simp
  have 2: "list_all (failed_attempt cmds) []" by simp
  from assms have 3: "snd (fin, st) = None \<and> fin = [] \<and> length ([] :: ('a, 'b, 'c) event list list) = fuel \<or>
     snd (fin, st) = Some Committed \<and> (\<exists>t. fin = committed_attempt cmds (Some t)) \<or>
     snd (fin, st) = Some Panicked \<and> fin = [EvBeginx None, EvRollback None]"
    by auto
  from 1 2 3 show ?thesis unfolding run_shape_def by blast
qed

lemma processData_shape: "run_shape fuel cmds (processData fuel db k cmds)"
proof (induction fuel arbitrary: k)
  case 0
  have "fst (processData 0 db k cmds) = concat [] @ []" by simp
  moreover have "list_all (failed_attempt cmds) []" by simp
  moreover have "snd (processData 0 db k cmds) = None \<and> length ([] :: ('a, 'b, 'c) event list list) = 0"
    by simp
  ultimately show ?case unfolding run_shape_def by blast
next
  case (Suc fuel)
  show ?case
  proof (cases "db k")
    case False
    then have "processData (Suc fuel) db k cmds = ([EvBeginx None, EvRollback None], Some Panicked)"
      by simp
    then show ?thesis by (simp add: run_shape_final)
  next
    case True
    from exec_loop_cases [of db "Suc k" "Some k" cmds] show ?thesis
    proof
      assume ok: "exec_loop db (Suc k) (Some k) cmds =
        (True, Suc k + length cmds, map (\<lambda>c. EvNamedExec (Some k) c True) cmds)"
      show ?thesis
      proof (cases "db (Suc k + length cmds)")
        case c: True
        with True ok have "processData (Suc fuel) db k cmds =
          (committed_attempt cmds (Some k), Some Committed)"
          by (simp add: committed_attempt_def Let_def)
        then show ?thesis by (auto intro: run_shape_final)
      next
        case c: False
        obtain later st where l: "processData fuel db (Suc (Suc k + length cmds)) cmds = (later, st)"
          by (cases "processData fuel db (Suc (Suc k + length cmds)) cmds")
        with True ok c have p: "processData (Suc fuel) db k cmds =
          (commit_failure cmds (Some k) @ later, st)"
          by (simp add: commit_failure_def retry_delay_def Let_def)
        have f: "failed_attempt cmds (commit_failure cmds (Some k))"
          unfolding failed_attempt_def by blast
        from Suc.IH [of "Suc (Suc k + length cmds)"] l have "run_shape fuel cmds (later, st)" by simp
        from run_shape_retry [OF f this] p show ?thesis by simp
      qed
    next
      assume "\<exists>j<length cmds. exec_loop db (Suc k) (Some k) cmds =
        (False, Suc (Suc k + j),
         map (\<lambda>c. EvNamedExec (Some k) c True) (take j cmds) @
           [EvNamedExec (Some k) (cmds ! j) False, EvRollback (Some k), EvWait 5])"
      then obtain j where j: "j < length cmds" and e: "exec_loop db (Suc k) (Some k) cmds =
        (False, Suc (Suc k + j),
         map (\<lambda>c. EvNamedExec (Some k) c True) (take j cmds) @
           [EvNamedExec (Some k) (cmds ! j) False, EvRollback (Some k), EvWait 5])" by blast
      obtain later st where l: "processData fuel db (Suc (Suc k + j)) cmds = (later, st)"
        by (cases "processData fuel db (Suc (Suc k + j)) cmds")
      with True e have p: "processData (Suc fuel) db k cmds =
          (exec_failure cmds (Some k) j @ later, st)"
        by (simp add: exec_failure_def Let_def)
      have f: "failed_attempt cmds (exec_failure cmds (Some k) j)"
        unfolding failed_attempt_def using j by blast
      from Suc.IH [of "Suc (Suc k + j)"] l have "run_shape fuel cmds (later, st)" by simp
      from run_shape_retry [OF f this] p show ?thesis by simp
    qed
  qed
qed

lemma failed_attempt_events:
  "failed_attempt cmds a \<Longrightarrow> e \<in> set a \<Longrightarrow> \<not> is_hook e \<and> \<not> is_commit e \<and> e \<noteq> EvBeginx None"
  unfolding failed_attempt_def exec_failure_def commit_failure_def by auto

lemma failed_attempts_events:
  "list_all (failed_attempt cmds) as \<Longrightarrow> e \<in> set (concat as) \<Longrightarrow>
     \<not> is_hook e \<and> \<not> is_commit e \<and> e \<noteq> EvBeginx None"
  using failed_attempt_events by (fastforce simp: list_all_iff)

text \<open>
  A chunk of three commands whose second statement fails in the first attempt: nothing
  is committed and no handler is called in the first attempt, and the second attempt
  runs all three commands, commits and calls the handler three times.
\<close>

lemma scenario_4_run:
  "processData 2 second_statement_fails 0 [sample_cmd 1, sample_cmd 2, sample_cmd 3] =
     ([EvBeginx (Some 0), EvNamedExec (Some 0) (sample_cmd 1) True,
       EvNamedExec (Some 0) (sample_cmd 2) False, EvRollback (Some 0), EvWait 5,
       EvBeginx (Some 3), EvNamedExec (Some 3) (sample_cmd 1) True,
       EvNamedExec (Some 3) (sample_cmd 2) True, EvNamedExec (Some 3) (sample_cmd 3) True,
       EvCommit (Some 3) True,
       EvHook (sample_cmd 1), EvHook (sample_cmd 2), EvHook (sample_cmd 3)],
      Some Committed)"
  by (simp add: numeral_2_eq_2 second_statement_fails_def retry_delay_def Let_def)

text \<open>
  Claim processData_retries_whole_chunk. Every run of the batch writer on a chunk is a sequence of failed attempts
  followed by at most one final part. A failed attempt begins a transaction, executes
  the commands of the chunk in order from the first one up to a failing statement, or
  all of them up to a failing commit, then rolls back and waits 5 seconds; the next
  attempt starts again from the first command of the same chunk. No failed attempt calls
  the completion handler. The final part is the attempt that executes the whole chunk,
  commits and then calls the handler, or the failed begin; it is missing only when the
  run was cut after \<open>fuel\<close> attempts, all of them failed.
\<close>

theorem processData_retries_whole_chunk:
  "\<exists>as fin.
     fst (processData fuel db k cmds) = concat as @ fin \<and>
     list_all (failed_attempt cmds) as \<and>
     list_all (\<lambda>e. \<not> is_hook e) (concat as) \<and>
     (snd (processData fuel db k cmds) = None \<and> fin = [] \<and> length as = fuel \<or>
      snd (processData fuel db k cmds) = Some Committed \<and>
        (\<exists>t. fin = committed_attempt cmds (Some t)) \<or>
      snd (processData fuel db k cmds) = Some Panicked \<and> fin = [EvBeginx None, EvRollback None])"
proof -
  from processData_shape [of fuel cmds db k]
  obtain as fin where s: "fst (processData fuel db k cmds) = concat as @ fin"
    "list_all (failed_attempt cmds) as"
    "snd (processData fuel db k cmds) = None \<and> fin = [] \<and> length as = fuel \<or>
      snd (processData fuel db k cmds) = Some Committed \<and>
        (\<exists>t. fin = committed_attempt cmds (Some t)) \<or>
      snd (processData fuel db k cmds) = Some Panicked \<and> fin = [EvBeginx None, EvRollback None]"
    unfolding run_shape_def by blast
  from s(2) have "list_all (\<lambda>e. \<not> is_hook e) (concat as)"
    using failed_attempts_events [of cmds as] unfolding list_all_iff by blast
  with s show ?thesis by blast
qed

text \<open>
  The theorem at the chunk of three commands whose second statement fails once.
\<close>

theorem processData_retries_whole_chunk_witness:
  "processData 2 second_statement_fails 0 [sample_cmd 1, sample_cmd 2, sample_cmd 3] =
     (exec_failure [sample_cmd 1, sample_cmd 2, sample_cmd 3] (Some 0) 1 @
      committed_attempt [sample_cmd 1, sample_cmd 2, sample_cmd 3] (Some 3), Some Committed) \<and>
   (\<exists>as fin.
     fst (processData 2 second_statement_fails 0 [sample_cmd 1, sample_cmd 2, sample_cmd 3])
       = concat as @ fin \<and>
     list_all (failed_attempt [sample_cmd 1, sample_cmd 2, sample_cmd 3]) as \<and>
     list_all (\<lambda>e. \<not> is_hook e) (concat as) \<and>
     fin = committed_attempt [sample_cmd 1, sample_cmd 2, sample_cmd 3] (Some 3))"
proof -
  let ?cmds = "[sample_cmd 1, sample_cmd 2, sample_cmd 3]"
  have run: "processData 2 second_statement_fails 0 ?cmds =
     (exec_failure ?cmds (Some 0) 1 @ committed_attempt ?cmds (Some 3), Some Committed)"
    unfolding scenario_4_run by (simp add: exec_failure_def committed_attempt_def)
  from processData_retries_whole_chunk [of 2 second_statement_fails 0 ?cmds]
  obtain as fin where s:
    "fst (processData 2 second_statement_fails 0 ?cmds) = concat as @ fin"
    "list_all (failed_attempt ?cmds) as"
    "list_all (\<lambda>e. \<not> is_hook e) (concat as)"
    "\<exists>t. fin = committed_attempt ?cmds (Some t)"
    unfolding run by auto
  from s(4) obtain t where t: "fin = committed_attempt ?cmds (Some t)" by blast
  have "EvCommit (Some t) True \<in> set (concat as @ fin)"
    unfolding t committed_attempt_def by simp
  then have "EvCommit (Some t) True \<in> set (fst (processData 2 second_statement_fails 0 ?cmds))"
    using s(1) by simp
  then have "t = 3"
    unfolding scenario_4_run by simp
  with t s run show ?thesis by blast
qed

text \<open>
  Claim processData_hooks_after_commit. When the transaction of a chunk commits, the events after the commit are
  exactly the calls of the completion handler on the commands of the chunk, one for each
  command, in chunk order, each passed the command (with its reference and record); no
  handler call and no successful commit comes before, and the function returns.
\<close>

theorem processData_hooks_after_commit:
  "EvCommit tx True \<in> set (fst (processData fuel db k cmds)) \<Longrightarrow>
     \<exists>pre. fst (processData fuel db k cmds) = pre @ EvCommit tx True # map EvHook cmds \<and>
           list_all (\<lambda>e. \<not> is_hook e \<and> \<not> is_commit e) pre \<and>
           snd (processData fuel db k cmds) = Some Committed"
proof -
  assume c: "EvCommit tx True \<in> set (fst (processData fuel db k cmds))"
  from processData_shape [of fuel cmds db k]
  obtain as fin where s: "fst (processData fuel db k cmds) = concat as @ fin"
    "list_all (failed_attempt cmds) as"
    "snd (processData fuel db k cmds) = None \<and> fin = [] \<and> length as = fuel \<or>
      snd (processData fuel db k cmds) = Some Committed \<and>
        (\<exists>t. fin = committed_attempt cmds (Some t)) \<or>
      snd (processData fuel db k cmds) = Some Panicked \<and> fin = [EvBeginx None, EvRollback None]"
    unfolding run_shape_def by blast
  have no: "\<not> is_hook e \<and> \<not> is_commit e" if "e \<in> set (concat as)" for e
    using failed_attempts_events [OF s(2) that] by simp
  then have "EvCommit tx True \<notin> set (concat as)" by fastforce
  with c s(1) have infin: "EvCommit tx True \<in> set fin" by simp
  with s(3) obtain t where st: "snd (processData fuel db k cmds) = Some Committed"
    and fin: "fin = committed_attempt cmds (Some t)" by auto
  from infin have tx: "tx = Some t" unfolding fin committed_attempt_def by auto
  let ?pre = "concat as @ EvBeginx tx # map (\<lambda>c. EvNamedExec tx c True) cmds"
  have 1: "fst (processData fuel db k cmds) = ?pre @ EvCommit tx True # map EvHook cmds"
    unfolding s(1) fin tx committed_attempt_def by simp
  have 2: "list_all (\<lambda>e. \<not> is_hook e \<and> \<not> is_commit e) ?pre"
    using no unfolding list_all_iff by auto
  from 1 2 st show ?thesis by blast
qed

text \<open>
  The theorem at the chunk of three commands whose second statement fails once.
\<close>

theorem processData_hooks_after_commit_witness:
  "EvCommit (Some 3) True
     \<in> set (fst (processData 2 second_statement_fails 0 [sample_cmd 1, sample_cmd 2, sample_cmd 3])) \<and>
   (\<exists>pre. fst (processData 2 second_statement_fails 0 [sample_cmd 1, sample_cmd 2, sample_cmd 3]) =
            pre @ EvCommit (Some 3) True # map EvHook [sample_cmd 1, sample_cmd 2, sample_cmd 3] \<and>
          list_all (\<lambda>e. \<not> is_hook e \<and> \<not> is_commit e) pre \<and>
          snd (processData 2 second_statement_fails 0 [sample_cmd 1, sample_cmd 2, sample_cmd 3])
            = Some Committed)"
proof -
  have h: "EvCommit (Some 3) True
     \<in> set (fst (processData 2 second_statement_fails 0 [sample_cmd 1, sample_cmd 2, sample_cmd 3]))"
    unfolding scenario_4_run by simp
  from processData_hooks_after_commit [OF h] h show ?thesis by blast
qed

text \<open>
  Claim processData_begin_failure_rollback_nil. When \<^verbatim>\<open>Beginx\<close> fails, the next thing the writer does is call
  \<^verbatim>\<open>Rollback\<close> on the nil handle it was given: an attempt whose begin fails consists
  of the failed begin and the rollback on \<open>None\<close>, with no wait before the rollback, and
  the run ends there with the nil dereference. This holds for the first attempt and for
  a begin that fails on a retry.
\<close>

theorem processData_begin_failure_rollback_nil:
  "(\<not> db k \<longrightarrow>
      processData (Suc fuel) db k cmds = ([EvBeginx None, EvRollback None], Some Panicked)) \<and>
   (EvBeginx None \<in> set (fst (processData fuel db k cmds)) \<longrightarrow>
      (\<exists>pre. fst (processData fuel db k cmds) = pre @ [EvBeginx None, EvRollback None]) \<and>
      snd (processData fuel db k cmds) = Some Panicked)"
proof (intro conjI impI)
  assume "\<not> db k"
  then show "processData (Suc fuel) db k cmds = ([EvBeginx None, EvRollback None], Some Panicked)"
    by simp
next
  assume c: "EvBeginx None \<in> set (fst (processData fuel db k cmds))"
  from processData_shape [of fuel cmds db k]
  obtain as fin where s: "fst (processData fuel db k cmds) = concat as @ fin"
    "list_all (failed_attempt cmds) as"
    "snd (processData fuel db k cmds) = None \<and> fin = [] \<and> length as = fuel \<or>
      snd (processData fuel db k cmds) = Some Committed \<and>
        (\<exists>t. fin = committed_attempt cmds (Some t)) \<or>
      snd (processData fuel db k cmds) = Some Panicked \<and> fin = [EvBeginx None, EvRollback None]"
    unfolding run_shape_def by blast
  have "EvBeginx None \<notin> set (concat as)"
    using failed_attempts_events [OF s(2)] by blast
  with c s(1) have infin: "EvBeginx None \<in> set fin" by simp
  have "EvBeginx None \<notin> set (committed_attempt cmds (Some t))" for t
    unfolding committed_attempt_def by auto
  with infin s(3) have f: "snd (processData fuel db k cmds) = Some Panicked"
    "fin = [EvBeginx None, EvRollback None]" by auto
  from s(1) f(2) have "fst (processData fuel db k cmds) = concat as @ [EvBeginx None, EvRollback None]"
    by simp
  then show "\<exists>pre. fst (processData fuel db k cmds) = pre @ [EvBeginx None, EvRollback None]"
    by blast
  from f(1) show "snd (processData fuel db k cmds) = Some Panicked" .
qed

text \<open>
  The theorem at a database whose first statement fails and whose second begin fails.
\<close>

theorem processData_begin_failure_rollback_nil_witness:
  "\<not> begin_fails_on_retry 2 \<and>
   processData 2 begin_fails_on_retry 0 [sample_cmd 1, sample_cmd 2] =
     ([EvBeginx (Some 0), EvNamedExec (Some 0) (sample_cmd 1) False, EvRollback (Some 0), EvWait 5,
       EvBeginx None, EvRollback None], Some Panicked) \<and>
   processData 1 begin_fails_on_retry 2 [sample_cmd 1, sample_cmd 2] =
     ([EvBeginx None, EvRollback None], Some Panicked) \<and>
   EvBeginx None \<in> set (fst (processData 2 begin_fails_on_retry 0 [sample_cmd 1, sample_cmd 2])) \<and>
   snd (processData 2 begin_fails_on_retry 0 [sample_cmd 1, sample_cmd 2]) = Some Panicked"
proof -
  have h: "\<not> begin_fails_on_retry 2" by (simp add: begin_fails_on_retry_def)
  have run: "processData 2 begin_fails_on_retry 0 [sample_cmd 1, sample_cmd 2] =
     ([EvBeginx (Some 0), EvNamedExec (Some 0) (sample_cmd 1) False, EvRollback (Some 0), EvWait 5,
       EvBeginx None, EvRollback None], Some Panicked)"
    by (simp add: numeral_2_eq_2 begin_fails_on_retry_def retry_delay_def Let_def)
  have m: "EvBeginx None \<in> set (fst (processData 2 begin_fails_on_retry 0 [sample_cmd 1, sample_cmd 2]))"
    unfolding run by simp
  from processData_begin_failure_rollback_nil [where db = begin_fails_on_retry and k = 2 and fuel = 0 and cmds = "[sample_cmd 1, sample_cmd 2]"] h
  have a: "processData 1 begin_fails_on_retry 2 [sample_cmd 1, sample_cmd 2] =
     ([EvBeginx None, EvRollback None], Some Panicked)" by simp
  from processData_begin_failure_rollback_nil [where db = begin_fails_on_retry and k = 0 and fuel = 2 and cmds = "[sample_cmd 1, sample_cmd 2]"] m
  have b: "snd (processData 2 begin_fails_on_retry 0 [sample_cmd 1, sample_cmd 2]) = Some Panicked"
    by simp
  from h run a m b show ?thesis by blast
qed

end
